theory Spec2Isabelle
  imports Main "HOL-Library.AList"
begin

section \<open>package.ts: the command pipeline\<close>

text \<open>
  \<^verbatim>\<open>pipeline(commands)\<close> creates an event emitter, starts the asynchronous function
  \<^verbatim>\<open>run\<close> and returns the emitter. \<^verbatim>\<open>run\<close> spawns the commands one after the other;
  for each one it awaits a promise that only the child's \<^verbatim>\<open>exit\<close> notification
  resolves. The spawn primitive \<^verbatim>\<open>api.$.spawn\<close> belongs to the host toolkit, so
  it is a parameter of the model: what its \<open>k\<close>-th call, with a given command string,
  does.
\<close>

type_synonym payload = string

text \<open>
  A spawned child notifies its listeners of output (\<^verbatim>\<open>data\<close>) and of its error stream
  (\<^verbatim>\<open>error\<close>), and at last of its exit. \<open>exit_code = None\<close> is a child whose
  \<^verbatim>\<open>exit\<close> never fires.
\<close>

datatype notification = ChildData payload | ChildError payload

record child =
  notifications :: "notification list"
  exit_code :: "int option"

text \<open>The call \<^verbatim>\<open>api.$.spawn(command)\<close> either throws or returns a child.\<close>

datatype spawn_result = Throws payload | Spawned child

type_synonym spawner = "nat \<Rightarrow> string \<Rightarrow> spawn_result"

text \<open>The events of the pipeline's emitter: \<^verbatim>\<open>data\<close>, \<^verbatim>\<open>exit\<close> and \<^verbatim>\<open>error\<close>.\<close>

datatype event = Data payload | Exit | Error payload

text \<open>
  What a run does, in the order it does it: it calls the spawn primitive, a child's
  \<^verbatim>\<open>exit\<close> listener resolves the awaited promise, the emitter emits an event.
\<close>

datatype step = Spawn string | ChildExit string int | Emit event

text \<open>
  The listeners \<^verbatim>\<open>run\<close> puts on a child: \<^verbatim>\<open>child.on('error', e => emitter.emit('data', e))\<close>
  and \<^verbatim>\<open>child.on('data', e => emitter.emit('data', e))\<close>.
\<close>

fun forward :: "notification \<Rightarrow> step" where
  "forward (ChildError e) = Emit (Data e)"
| "forward (ChildData e) = Emit (Data e)"

text \<open>
  The body of \<^verbatim>\<open>run\<close>: the \<^verbatim>\<open>for\<close> loop inside \<^verbatim>\<open>try\<close>, \<^verbatim>\<open>emitter.emit('exit')\<close> after
  the loop, \<^verbatim>\<open>emitter.emit('error', error)\<close> in \<^verbatim>\<open>catch\<close>. A throw of the spawn
  primitive inside the promise's executor rejects the promise, and the \<^verbatim>\<open>await\<close>
  rethrows it into \<^verbatim>\<open>catch\<close>. A child that never exits leaves the promise pending:
  the run stops there and emits no further event. \<open>k\<close> counts the calls of the spawn
  primitive made so far.
\<close>

fun run :: "spawner \<Rightarrow> nat \<Rightarrow> string list \<Rightarrow> step list" where
  "run spawn k [] = [Emit Exit]"
| "run spawn k (command # commands) =
     Spawn command #
     (case spawn k command of
        Throws error \<Rightarrow> [Emit (Error error)]
      | Spawned child \<Rightarrow>
          map forward (notifications child) @
          (case exit_code child of
             None \<Rightarrow> []
           | Some code \<Rightarrow> ChildExit command code # run spawn (Suc k) commands))"

text \<open>
  \<^verbatim>\<open>pipeline\<close> calls \<^verbatim>\<open>run()\<close> and then returns the emitter. An asynchronous
  function runs synchronously up to its first \<^verbatim>\<open>await\<close>: with no command that is the
  whole body, \<^verbatim>\<open>emitter.emit('exit')\<close> included; otherwise it is the first call of the
  spawn primitive. Everything else happens after the caller has the emitter in hand.
\<close>

record pipeline_run =
  during_call :: "step list"
  after_return :: "step list"

definition pipeline :: "spawner \<Rightarrow> string list \<Rightarrow> pipeline_run" where
  "pipeline spawn commands =
     (case commands of
        [] \<Rightarrow> \<lparr>during_call = [Emit Exit], after_return = []\<rparr>
      | command # _ \<Rightarrow>
          \<lparr>during_call = [Spawn command], after_return = tl (run spawn 0 commands)\<rparr>)"

definition trace :: "pipeline_run \<Rightarrow> step list" where
  "trace pl = during_call pl @ after_return pl"

subsection \<open>Reading a trace\<close>

fun spawned :: "step list \<Rightarrow> string list" where
  "spawned [] = []"
| "spawned (Spawn command # t) = command # spawned t"
| "spawned (_ # t) = spawned t"

fun emitted :: "step list \<Rightarrow> event list" where
  "emitted [] = []"
| "emitted (Emit e # t) = e # emitted t"
| "emitted (_ # t) = emitted t"

fun is_terminal :: "event \<Rightarrow> bool" where
  "is_terminal (Data _) = False"
| "is_terminal Exit = True"
| "is_terminal (Error _) = True"

definition terminal_events :: "step list \<Rightarrow> event list" where
  "terminal_events t = filter is_terminal (emitted t)"

text \<open>The spawn calls and child exits of a trace, the emitted events left out.\<close>

fun lifecycle :: "step list \<Rightarrow> step list" where
  "lifecycle [] = []"
| "lifecycle (Emit _ # t) = lifecycle t"
| "lifecycle (s # t) = s # lifecycle t"

text \<open>
  From the \<open>k\<close>-th call of the spawn primitive on, every command of the list is
  spawned without a throw and its child exits (\<open>all_exit\<close>, whatever the exit code),
  or exits with code 0 (\<open>all_succeed\<close>).
\<close>

fun all_exit :: "spawner \<Rightarrow> nat \<Rightarrow> string list \<Rightarrow> bool" where
  "all_exit spawn k [] = True"
| "all_exit spawn k (command # commands) =
     (case spawn k command of
        Throws _ \<Rightarrow> False
      | Spawned child \<Rightarrow> exit_code child \<noteq> None \<and> all_exit spawn (Suc k) commands)"

fun all_succeed :: "spawner \<Rightarrow> nat \<Rightarrow> string list \<Rightarrow> bool" where
  "all_succeed spawn k [] = True"
| "all_succeed spawn k (command # commands) =
     (case spawn k command of
        Throws _ \<Rightarrow> False
      | Spawned child \<Rightarrow> exit_code child = Some 0 \<and> all_succeed spawn (Suc k) commands)"

text \<open>
  The same spawn primitive with other exit codes: every child that exits with code
  \<open>c\<close> exits with \<open>f c\<close> instead, and nothing else changes. \<open>recode_step\<close> is the same
  change of the code noted in a trace.
\<close>

definition recode :: "(int \<Rightarrow> int) \<Rightarrow> spawner \<Rightarrow> spawner" where
  "recode f spawn k command =
     (case spawn k command of
        Throws e \<Rightarrow> Throws e
      | Spawned child \<Rightarrow> Spawned (child\<lparr>exit_code := map_option f (exit_code child)\<rparr>))"

fun recode_step :: "(int \<Rightarrow> int) \<Rightarrow> step \<Rightarrow> step" where
  "recode_step f (ChildExit command code) = ChildExit command (f code)"
| "recode_step f s = s"

text \<open>
  A sample spawn primitive for the worked examples: \<^verbatim>\<open>publish\<close> cannot be spawned,
  \<^verbatim>\<open>false\<close> exits with code 1, \<^verbatim>\<open>test\<close> writes to both streams and exits with
  code 1, every other command exits with code 0.
\<close>

definition sh :: spawner where
  "sh k command =
     (if command = ''publish'' then Throws ''spawn publish ENOENT''
      else if command = ''false'' then Spawned \<lparr>notifications = [], exit_code = Some 1\<rparr>
      else if command = ''test'' then
        Spawned \<lparr>notifications = [ChildData ''1 failing'', ChildError ''assertion failed''],
                 exit_code = Some 1\<rparr>
      else if command = ''echo hello'' then
        Spawned \<lparr>notifications = [ChildData ''hello''], exit_code = Some 0\<rparr>
      else Spawned \<lparr>notifications = [], exit_code = Some 0\<rparr>)"

section \<open>package.ts: the configuration and \<^verbatim>\<open>release\<close>\<close>

text \<open>
  A configured command is a string or a list of strings. \<^verbatim>\<open>PackageManagerConfig\<close> and
  \<^verbatim>\<open>DevToolsConfig\<close> hold the loaded \<^verbatim>\<open>.gpm.yml\<close> and the flag \<^verbatim>\<open>isReady\<close>, which
  \<^verbatim>\<open>prepare()\<close> sets; \<^verbatim>\<open>get\<close> calls \<^verbatim>\<open>ensure()\<close>, which throws while the flag is
  unset, and then looks the key up. An absent key is \<open>None\<close> (\<^verbatim>\<open>undefined\<close>, which
  \<^verbatim>\<open>DevToolsConfig.get\<close> turns into \<^verbatim>\<open>null\<close>: the callers treat both alike).
\<close>

datatype command = Single string | Many "string list"

datatype js_error = JsError string | JsTypeError string

record config =
  isReady :: bool
  entries :: "string \<Rightarrow> command option"

definition get :: "config \<Rightarrow> string \<Rightarrow> js_error + command option" where
  "get c key =
     (if \<not> isReady c then Inl (JsError ''config is not ready'') else Inr (entries c key))"

text \<open>
  JavaScript's truthiness of a command: \<^verbatim>\<open>undefined\<close>, \<^verbatim>\<open>null\<close> and the empty
  string are falsy, every array is truthy, the empty one too.
\<close>

fun truthy_command :: "command option \<Rightarrow> bool" where
  "truthy_command None = False"
| "truthy_command (Some (Single s)) = (s \<noteq> [])"
| "truthy_command (Some (Many cs)) = True"

text \<open>\<^verbatim>\<open>Array.isArray(releaseCommand) ? releaseCommand : [releaseCommand]\<close>\<close>

fun as_array :: "command \<Rightarrow> string list" where
  "as_array (Many cs) = cs"
| "as_array (Single s) = [s]"

text \<open>
  What \<^verbatim>\<open>release\<close> leaves behind when it runs a pipeline: the values written to the
  process's two streams and the state of the promise it returned. The promise's
  executor takes \<^verbatim>\<open>resolve\<close> only, so the promise is pending or resolved.
\<close>

record streams =
  stdout :: "payload list"
  stderr :: "payload list"

datatype promise = Pending | Resolved

text \<open>
  The three listeners \<^verbatim>\<open>release\<close> puts on the pipeline's emitter:
  \<^verbatim>\<open>pl.on('error', e => process.stderr.write(e))\<close>,
  \<^verbatim>\<open>pl.on('data', e => process.stdout.write(e))\<close> and
  \<^verbatim>\<open>pl.on('exit', () => { resolve(); })\<close>. A stream is the list of the values
  passed to its \<^verbatim>\<open>write\<close>. A payload is a string, which \<^verbatim>\<open>write\<close> accepts; a value
  of another kind (an \<^verbatim>\<open>Error\<close> object thrown by the spawn primitive) makes \<^verbatim>\<open>write\<close>
  itself throw and is outside this model. In neither case does anything call
  \<^verbatim>\<open>resolve\<close>.
\<close>

fun listeners :: "streams \<times> promise \<Rightarrow> event \<Rightarrow> streams \<times> promise" where
  "listeners (io, p) (Error e) = (io\<lparr>stderr := stderr io @ [e]\<rparr>, p)"
| "listeners (io, p) (Data e) = (io\<lparr>stdout := stdout io @ [e]\<rparr>, p)"
| "listeners (io, p) Exit = (io, Resolved)"

text \<open>
  \<^verbatim>\<open>release\<close>: with a truthy configured command it returns the promise whose executor
  starts the pipeline and then attaches the listeners. An emitter calls the listeners
  it has when an event is emitted and keeps no event for later ones, so the listeners
  see the events emitted after \<^verbatim>\<open>pipeline\<close> has returned. Otherwise \<^verbatim>\<open>release\<close> goes
  on to bump the version in \<^verbatim>\<open>package.json\<close>, which is not modelled (\<open>PackageJson\<close>).
  A throw of \<^verbatim>\<open>config.get\<close> rejects the promise of the asynchronous method (\<open>Inl\<close>).
\<close>

datatype released = Piped streams promise | PackageJson

definition release :: "spawner \<Rightarrow> config \<Rightarrow> js_error + released" where
  "release spawn c =
     (case get c ''release'' of
        Inl error \<Rightarrow> Inl error
      | Inr releaseCommand \<Rightarrow>
          if truthy_command releaseCommand then
            (case releaseCommand of
               None \<Rightarrow> Inr PackageJson
             | Some configured \<Rightarrow>
                 let commands = as_array configured;
                     pl = pipeline spawn commands;
                     (io, p) = foldl listeners (\<lparr>stdout = [], stderr = []\<rparr>, Pending)
                                 (emitted (after_return pl))
                 in Inr (Piped io p))
          else Inr PackageJson)"

section \<open>devtools.ts: \<^verbatim>\<open>DevTools.watch\<close>\<close>

text \<open>
  \<^verbatim>\<open>WatchOptions\<close>: every property is optional (\<open>None\<close> is \<^verbatim>\<open>undefined\<close>). \<^verbatim>\<open>ignore\<close>
  is declared an array of strings and regular expressions, and the code also accepts a
  single pattern.
\<close>

datatype pattern = Str string | RegExp string

datatype ignore_option = One pattern | Several "pattern list"

record WatchOptions =
  opt_command :: "command option"
  opt_context :: "string option"
  opt_path :: "string option"
  opt_ignore :: "ignore_option option"

text \<open>The built-in pattern \<^verbatim>\<open>/\.git/\<close>.\<close>

definition dot_git :: pattern where
  "dot_git = RegExp (CHR 0x5C # ''.git'')"

text \<open>\<^verbatim>\<open>a || b\<close> on an optional string: \<^verbatim>\<open>undefined\<close> and the empty string are falsy.\<close>

fun or_else :: "string option \<Rightarrow> string \<Rightarrow> string" where
  "or_else None d = d"
| "or_else (Some s) d = (if s = [] then d else s)"

text \<open>
  \<^verbatim>\<open>if (options.ignore) { if (!Array.isArray(options.ignore)) { ignore.push(options.ignore); }
  else { ignore.push(...options.ignore); } }\<close>: what is pushed behind the built-in
  pattern.
\<close>

fun pushed :: "ignore_option option \<Rightarrow> pattern list" where
  "pushed None = []"
| "pushed (Some (One (Str s))) = (if s = [] then [] else [Str s])"
| "pushed (Some (One (RegExp r))) = [RegExp r]"
| "pushed (Some (Several ps)) = ps"

text \<open>\<^verbatim>\<open>/^\//.test(path)\<close>\<close>

fun starts_with_slash :: "string \<Rightarrow> bool" where
  "starts_with_slash [] = False"
| "starts_with_slash (c # _) = (c = CHR ''/'')"

text \<open>
  A command inside a template string: an array prints its elements joined by commas,
  \<^verbatim>\<open>null\<close> prints as its name.
\<close>

fun join :: "string list \<Rightarrow> string" where
  "join [] = []"
| "join [s] = s"
| "join (s # ss) = s @ '','' @ join ss"

fun to_string :: "command option \<Rightarrow> string" where
  "to_string None = ''null''"
| "to_string (Some (Single s)) = s"
| "to_string (Some (Many cs)) = join cs"

text \<open>
  What \<^verbatim>\<open>watch\<close> does once it has a command: two lines to the logger, \<^verbatim>\<open>createRun()\<close>
  (which wraps the handler that kills the previous children and spawns the new ones in
  \<^verbatim>\<open>doreamon.func.debounce(..., 1000)\<close>), the registration of the filesystem watcher,
  and the first call \<^verbatim>\<open>_run(true)\<close> of the debounced handler. Processes are spawned
  by the handler only, so by nothing that comes before \<open>CallRun\<close>.
\<close>

datatype action =
  LoggerInfo string | Debounce nat | FsWatch string "pattern list" | CallRun bool

text \<open>
  \<^verbatim>\<open>watch(options?)\<close>, statement by statement, in the working directory \<open>cwd\<close>
  (\<^verbatim>\<open>process.cwd()\<close>). \<^verbatim>\<open>options?.command ?? this.config.get('watch')\<close> asks the
  configuration only when no command is given; \<^verbatim>\<open>options?.context\<close> and
  \<^verbatim>\<open>options?.path\<close> tolerate absent options, \<^verbatim>\<open>options.ignore\<close> does not: reading a
  property of \<^verbatim>\<open>undefined\<close> throws a \<^verbatim>\<open>TypeError\<close>. A throw rejects the promise of
  the asynchronous method (\<open>Inl\<close>), and nothing of the action list has happened then.
\<close>

definition watch :: "string \<Rightarrow> config \<Rightarrow> WatchOptions option \<Rightarrow> js_error + action list" where
  "watch cwd config options =
     (case (case Option.bind options opt_command of
              Some given \<Rightarrow> Inr (Some given)
            | None \<Rightarrow> get config ''watch'') of
        Inl error \<Rightarrow> Inl error
      | Inr command \<Rightarrow>
          let context = or_else (Option.bind options opt_context) cwd in
          (case options of
             None \<Rightarrow> Inl (JsTypeError ''Cannot read properties of undefined (reading 'ignore')'')
           | Some opts \<Rightarrow>
               let ignore = dot_git # pushed (opt_ignore opts);
                   path = or_else (Option.bind options opt_path) context
               in if \<not> truthy_command command
                  then Inl (JsError ''Watch no command found'')
                  else
                    let path = (if \<not> starts_with_slash path
                                then cwd @ ''/'' @ path else path)
                    in Inr [LoggerInfo (''[watch] command: '' @ to_string command @
                                        '' in context('' @ context @ '')''),
                            LoggerInfo (''[watch] watching '' @ path @ '' ...''),
                            Debounce 1000,
                            FsWatch path ignore,
                            CallRun True]))"

section \<open>package.ts: \<^verbatim>\<open>sortPackageJSON\<close>\<close>

text \<open>
  The content of \<^verbatim>\<open>package.json\<close> as loaded. An object is the list of its own
  properties in the order of their insertion, and no name occurs twice. That is how
  the engine treats ordinary names. It is not how it treats two kinds of names, which
  this model does not cover: a name made of digits is an array index, enumerated
  before all other names whenever it was inserted, and an assignment to \<^verbatim>\<open>__proto__\<close>
  on the fresh object \<^verbatim>\<open>_pkg\<close> creates no property. Numbers are integers here: the
  code only asks whether a value is truthy.
\<close>

datatype json =
  JNull | JBool bool | JNumber int | JString string | JArray "json list"
  | JObject "(string \<times> json) list"

type_synonym object = "(string \<times> json) list"

fun truthy :: "json \<Rightarrow> bool" where
  "truthy JNull = False"
| "truthy (JBool b) = b"
| "truthy (JNumber n) = (n \<noteq> 0)"
| "truthy (JString s) = (s \<noteq> [])"
| "truthy (JArray _) = True"
| "truthy (JObject _) = True"

text \<open>
  The names for which an object is the list of its properties in insertion order:
  neither \<^verbatim>\<open>__proto__\<close> nor made of digits only (which leaves out every array index).
\<close>

definition digits_only :: "string \<Rightarrow> bool" where
  "digits_only s = (s \<noteq> [] \<and> list_all (\<lambda>c. c \<in> set ''0123456789'') s)"

definition ordinary_key :: "string \<Rightarrow> bool" where
  "ordinary_key key = (key \<noteq> ''__proto__'' \<and> \<not> digits_only key)"

definition ordinary :: "object \<Rightarrow> bool" where
  "ordinary pkg = (distinct (map fst pkg) \<and> list_all (\<lambda>p. ordinary_key (fst p)) pkg)"

text \<open>The keys of the array \<^verbatim>\<open>fields\<close>, in its order.\<close>

definition fields :: "string list" where
  "fields = [
    ''$schema'', ''name'', ''displayName'', ''version'', ''private'', ''description'',
    ''categories'', ''keywords'', ''homepage'', ''bugs'', ''repository'', ''funding'',
    ''license'', ''qna'', ''author'', ''maintainers'', ''contributors'', ''publisher'',
    ''sideEffects'', ''type'', ''imports'', ''exports'', ''main'', ''umd:main'',
    ''jsdelivr'', ''unpkg'', ''module'', ''source'', ''jsnext:main'', ''browser'',
    ''types'', ''typesVersions'', ''typings'', ''style'', ''example'', ''examplestyle'',
    ''assets'', ''bin'', ''man'', ''directories'', ''files'', ''workspaces'', ''binary'',
    ''scripts'', ''betterScripts'', ''contributes'', ''activationEvents'', ''husky'',
    ''simple-git-hooks'', ''pre-commit'', ''commitlint'', ''lint-staged'', ''config'',
    ''nodemonConfig'', ''browserify'', ''babel'', ''browserslist'', ''xo'', ''prettier'',
    ''eslintConfig'', ''eslintIgnore'', ''npmpkgjsonlint'', ''npmPackageJsonLintConfig'',
    ''npmpackagejsonlint'', ''release'', ''remarkConfig'', ''stylelint'', ''ava'',
    ''jest'', ''mocha'', ''nyc'', ''c8'', ''tap'', ''resolutions'', ''dependencies'',
    ''devDependencies'', ''dependenciesMeta'', ''peerDependencies'',
    ''peerDependenciesMeta'', ''optionalDependencies'', ''bundledDependencies'',
    ''bundleDependencies'', ''extensionPack'', ''extensionDependencies'', ''flat'',
    ''engines'', ''engineStrict'', ''languageName'', ''os'', ''cpu'', ''preferGlobal'',
    ''publishConfig'', ''icon'', ''badges'', ''galleryBanner'', ''preview'', ''markdown'']"

text \<open>
  The first loop, over \<^verbatim>\<open>fields\<close>: \<^verbatim>\<open>if (pkg[field.key]) { _pkg[field.key] = pkg[field.key];
  delete pkg[field.key]; }\<close>. A property that is absent reads as \<^verbatim>\<open>undefined\<close>, which
  is falsy. \<open>pkg\<close> is the argument, which the loop mutates, and \<open>pkg'\<close> is \<^verbatim>\<open>_pkg\<close>.
  An assignment to a new property appends it, one to an existing property keeps its
  place (\<open>AList.update\<close>).
\<close>

fun move_fields :: "string list \<Rightarrow> object \<Rightarrow> object \<Rightarrow> object \<times> object" where
  "move_fields [] pkg pkg' = (pkg, pkg')"
| "move_fields (key # keys) pkg pkg' =
     (case map_of pkg key of
        None \<Rightarrow> move_fields keys pkg pkg'
      | Some v \<Rightarrow>
          if truthy v
          then move_fields keys (AList.delete key pkg) (AList.update key v pkg')
          else move_fields keys pkg pkg')"

text \<open>
  The second loop: \<^verbatim>\<open>if (Object.keys(pkg).length !== 0) { for (const key in pkg) { _pkg[key] =
  pkg[key]; } }\<close>.
\<close>

definition copy_rest :: "object \<Rightarrow> object \<Rightarrow> object" where
  "copy_rest pkg pkg' =
     (if length (map fst pkg) \<noteq> 0
      then fold (\<lambda>key acc. case map_of pkg key of
                              None \<Rightarrow> acc
                            | Some v \<Rightarrow> AList.update key v acc)
             (map fst pkg) pkg'
      else pkg')"

definition sortPackageJSON :: "object \<Rightarrow> object" where
  "sortPackageJSON pkg =
     (case move_fields fields pkg [] of (rest, pkg') \<Rightarrow> copy_rest rest pkg')"

section \<open>Properties of the command pipeline\<close>

subsection \<open>Traces\<close>

lemma trace_pipeline: "trace (pipeline spawn commands) = run spawn 0 commands"
  by (cases commands) (simp_all add: trace_def pipeline_def)

lemma run_not_Nil: "run spawn k commands \<noteq> []"
  by (cases commands) simp_all

lemma all_succeed_all_exit: "all_succeed spawn k commands \<Longrightarrow> all_exit spawn k commands"
  by (induction commands arbitrary: k) (auto split: spawn_result.splits)

lemma spawned_append: "spawned (s @ t) = spawned s @ spawned t"
  by (induction s rule: spawned.induct) simp_all

lemma emitted_append: "emitted (s @ t) = emitted s @ emitted t"
  by (induction s rule: emitted.induct) simp_all

lemma lifecycle_append: "lifecycle (s @ t) = lifecycle s @ lifecycle t"
  by (induction s rule: lifecycle.induct) simp_all

lemma terminal_events_append:
  "terminal_events (s @ t) = terminal_events s @ terminal_events t"
  by (simp add: terminal_events_def emitted_append)

lemma spawned_forward: "spawned (map forward ns) = []"
proof (induction ns)
  case Nil
  show ?case by simp
next
  case (Cons n ns)
  then show ?case by (cases n) simp_all
qed

lemma lifecycle_forward: "lifecycle (map forward ns) = []"
proof (induction ns)
  case Nil
  show ?case by simp
next
  case (Cons n ns)
  then show ?case by (cases n) simp_all
qed

lemma terminal_events_forward: "terminal_events (map forward ns) = []"
proof (induction ns)
  case Nil
  show ?case by (simp add: terminal_events_def)
next
  case (Cons n ns)
  then show ?case by (cases n) (simp_all add: terminal_events_def)
qed

lemma terminal_events_simps:
  "terminal_events [] = []"
  "terminal_events (Spawn c # t) = terminal_events t"
  "terminal_events (ChildExit c code # t) = terminal_events t"
  "terminal_events (Emit (Data d) # t) = terminal_events t"
  "terminal_events (Emit Exit # t) = Exit # terminal_events t"
  "terminal_events (Emit (Error e) # t) = Error e # terminal_events t"
  by (simp_all add: terminal_events_def)

text \<open>A run whose commands all exit ends with the exit event.\<close>

lemma run_all_exit:
  "all_exit spawn k commands \<Longrightarrow>
   run spawn k commands = butlast (run spawn k commands) @ [Emit Exit]"
proof (induction commands arbitrary: k)
  case Nil
  show ?case by simp
next
  case (Cons c commands)
  from Cons.prems obtain ch code where
    ch: "spawn k c = Spawned ch" "exit_code ch = Some code"
    and rest: "all_exit spawn (Suc k) commands"
    by (auto split: spawn_result.splits)
  from Cons.IH [OF rest] show ?case
    using ch by (simp add: run_not_Nil butlast_append)
qed

text \<open>Commands that all exit are a prefix of the run: the run goes on behind them.\<close>

lemma run_append:
  "all_exit spawn k pre \<Longrightarrow>
   run spawn k (pre @ rest) =
     butlast (run spawn k pre) @ run spawn (k + length pre) rest"
proof (induction pre arbitrary: k)
  case Nil
  show ?case by simp
next
  case (Cons c pre)
  from Cons.prems obtain ch code where
    ch: "spawn k c = Spawned ch" "exit_code ch = Some code"
    and rest: "all_exit spawn (Suc k) pre"
    by (auto split: spawn_result.splits)
  from Cons.IH [OF rest] show ?case
    using ch by (simp add: run_not_Nil butlast_append)
qed

lemma spawned_completed:
  "all_exit spawn k pre \<Longrightarrow> spawned (butlast (run spawn k pre)) = pre"
proof (induction pre arbitrary: k)
  case Nil
  show ?case by simp
next
  case (Cons c pre)
  from Cons.prems obtain ch code where
    ch: "spawn k c = Spawned ch" "exit_code ch = Some code"
    and rest: "all_exit spawn (Suc k) pre"
    by (auto split: spawn_result.splits)
  from Cons.IH [OF rest] show ?case
    using ch by (simp add: run_not_Nil butlast_append spawned_append spawned_forward)
qed

lemma terminal_events_completed:
  "all_exit spawn k pre \<Longrightarrow> terminal_events (butlast (run spawn k pre)) = []"
proof (induction pre arbitrary: k)
  case Nil
  show ?case by (simp add: terminal_events_simps)
next
  case (Cons c pre)
  from Cons.prems obtain ch code where
    ch: "spawn k c = Spawned ch" "exit_code ch = Some code"
    and rest: "all_exit spawn (Suc k) pre"
    by (auto split: spawn_result.splits)
  from Cons.IH [OF rest] show ?case
    using ch by (simp add: run_not_Nil butlast_append terminal_events_append
        terminal_events_forward terminal_events_simps)
qed

lemma lifecycle_completed:
  "all_succeed spawn k pre \<Longrightarrow>
   lifecycle (butlast (run spawn k pre)) = concat (map (\<lambda>c. [Spawn c, ChildExit c 0]) pre)"
proof (induction pre arbitrary: k)
  case Nil
  show ?case by simp
next
  case (Cons c pre)
  from Cons.prems obtain ch where
    ch: "spawn k c = Spawned ch" "exit_code ch = Some 0"
    and rest: "all_succeed spawn (Suc k) pre"
    by (auto split: spawn_result.splits)
  from Cons.IH [OF rest] show ?case
    using ch by (simp add: run_not_Nil butlast_append lifecycle_append lifecycle_forward)
qed

subsection \<open>Where a run stops\<close>

lemma run_throw_at:
  assumes "i < length commands" and "all_exit spawn 0 (take i commands)"
    and "spawn i (commands ! i) = Throws e"
  shows "run spawn 0 commands =
           butlast (run spawn 0 (take i commands)) @ [Spawn (commands ! i), Emit (Error e)]"
proof -
  have "commands = take i commands @ (commands ! i) # drop (Suc i) commands"
    using assms(1) by (simp add: id_take_nth_drop)
  then have "run spawn 0 commands =
      butlast (run spawn 0 (take i commands)) @
      run spawn (0 + length (take i commands)) ((commands ! i) # drop (Suc i) commands)"
    using run_append [OF assms(2)] by metis
  then show ?thesis using assms(1,3) by (simp add: min_absorb2)
qed

lemma run_exit_at:
  assumes "i < length commands" and "all_exit spawn 0 (take i commands)"
    and "spawn i (commands ! i) = Spawned ch" and "exit_code ch = Some code"
  shows "run spawn 0 commands =
           (butlast (run spawn 0 (take i commands)) @
            Spawn (commands ! i) # map forward (notifications ch)) @
           ChildExit (commands ! i) code # run spawn (Suc i) (drop (Suc i) commands)"
proof -
  have "commands = take i commands @ (commands ! i) # drop (Suc i) commands"
    using assms(1) by (simp add: id_take_nth_drop)
  then have "run spawn 0 commands =
      butlast (run spawn 0 (take i commands)) @
      run spawn (0 + length (take i commands)) ((commands ! i) # drop (Suc i) commands)"
    using run_append [OF assms(2)] by metis
  then show ?thesis using assms(1,3,4) by (simp add: min_absorb2)
qed

subsection \<open>The exit code is not looked at\<close>

lemma recode_step_forward: "recode_step f (forward n) = forward n"
  by (cases n) simp_all

lemma recode_apply:
  "recode f spawn k command =
     (case spawn k command of
        Throws e \<Rightarrow> Throws e
      | Spawned child \<Rightarrow> Spawned (child\<lparr>exit_code := map_option f (exit_code child)\<rparr>))"
  by (simp add: recode_def)

lemma run_recode: "run (recode f spawn) k commands = map (recode_step f) (run spawn k commands)"
proof (induction commands arbitrary: k)
  case Nil
  show ?case by simp
next
  case (Cons c commands)
  show ?case
  proof (cases "spawn k c")
    case (Throws e)
    then have "recode f spawn k c = Throws e"
      by (simp add: recode_apply)
    with Throws show ?thesis by simp
  next
    case (Spawned ch)
    then have "recode f spawn k c = Spawned (ch\<lparr>exit_code := map_option f (exit_code ch)\<rparr>)"
      by (simp add: recode_apply)
    with Spawned show ?thesis
      by (cases "exit_code ch") (simp_all add: Cons.IH recode_step_forward)
  qed
qed

text \<open>
  C5. When every command succeeds (it is spawned and its child exits with code 0), the
  pipeline spawns each command exactly once and in order; each spawn but the first
  comes right after the exit of the command before it; one terminal event is emitted,
  \<^verbatim>\<open>exit\<close>, it is the last thing the pipeline does, and no \<^verbatim>\<open>error\<close> event is
  emitted. With no command at all the \<^verbatim>\<open>exit\<close> event is emitted at once, while
  \<^verbatim>\<open>pipeline\<close> is still being called.
\<close>

theorem pipeline_all_succeed:
  assumes "all_succeed spawn 0 commands"
  shows "spawned (trace (pipeline spawn commands)) = commands \<and>
         lifecycle (trace (pipeline spawn commands)) =
           concat (map (\<lambda>command. [Spawn command, ChildExit command 0]) commands) \<and>
         terminal_events (trace (pipeline spawn commands)) = [Exit] \<and>
         last (trace (pipeline spawn commands)) = Emit Exit \<and>
         pipeline spawn [] = \<lparr>during_call = [Emit Exit], after_return = []\<rparr>"
proof -
  let ?t = "run spawn 0 commands"
  have ex: "all_exit spawn 0 commands"
    by (rule all_succeed_all_exit [OF assms])
  have t: "?t = butlast ?t @ [Emit Exit]"
    by (rule run_all_exit [OF ex])
  have "spawned ?t = commands"
    by (subst t) (simp add: spawned_append spawned_completed [OF ex])
  moreover have "lifecycle ?t =
      concat (map (\<lambda>command. [Spawn command, ChildExit command 0]) commands)"
    by (subst t) (simp add: lifecycle_append lifecycle_completed [OF assms])
  moreover have "terminal_events ?t = [Exit]"
    by (subst t)
      (simp add: terminal_events_append terminal_events_completed [OF ex] terminal_events_simps)
  moreover have "last ?t = Emit Exit"
    by (subst t) simp
  moreover have "pipeline spawn [] = \<lparr>during_call = [Emit Exit], after_return = []\<rparr>"
    by (simp add: pipeline_def)
  ultimately show ?thesis by (simp add: trace_pipeline)
qed

theorem pipeline_all_succeed_witness:
  "all_succeed sh 0 [''build'', ''echo hello''] \<and>
   spawned (trace (pipeline sh [''build'', ''echo hello''])) = [''build'', ''echo hello''] \<and>
   lifecycle (trace (pipeline sh [''build'', ''echo hello''])) =
     [Spawn ''build'', ChildExit ''build'' 0,
      Spawn ''echo hello'', ChildExit ''echo hello'' 0] \<and>
   terminal_events (trace (pipeline sh [''build'', ''echo hello''])) = [Exit] \<and>
   last (trace (pipeline sh [''build'', ''echo hello''])) = Emit Exit"
  using pipeline_all_succeed [of sh "[''build'', ''echo hello'']"]
  by (simp add: sh_def)

text \<open>
  C4. When the commands before position \<open>i\<close> are spawned and exit, and the spawn step
  of the command at position \<open>i\<close> throws \<open>e\<close>, the pipeline has spawned the commands
  up to and including that one and no later one, and it emits exactly one terminal
  event, the \<^verbatim>\<open>error\<close> event carrying \<open>e\<close>, as the last thing it does. Positions
  count from 0, and the command that throws may be the last one too.
\<close>

theorem pipeline_stops_at_spawn_error:
  assumes "i < length commands" and "all_exit spawn 0 (take i commands)"
    and "spawn i (commands ! i) = Throws e"
  shows "spawned (trace (pipeline spawn commands)) = take (Suc i) commands \<and>
         terminal_events (trace (pipeline spawn commands)) = [Error e] \<and>
         last (trace (pipeline spawn commands)) = Emit (Error e)"
proof -
  let ?t = "run spawn 0 commands"
  have t: "?t = butlast (run spawn 0 (take i commands)) @ [Spawn (commands ! i), Emit (Error e)]"
    by (rule run_throw_at [OF assms])
  have "spawned ?t = take i commands @ [commands ! i]"
    by (simp add: t spawned_append spawned_completed [OF assms(2)])
  then have "spawned ?t = take (Suc i) commands"
    using assms(1) by (simp add: take_Suc_conv_app_nth)
  moreover have "terminal_events ?t = [Error e]"
    by (simp add: t terminal_events_append terminal_events_completed [OF assms(2)]
        terminal_events_simps)
  moreover have "last ?t = Emit (Error e)"
    by (simp add: t)
  ultimately show ?thesis by (simp add: trace_pipeline)
qed

theorem pipeline_stops_at_spawn_error_witness:
  "2 < length [''build'', ''test'', ''publish'', ''tag''] \<and>
   all_exit sh 0 (take 2 [''build'', ''test'', ''publish'', ''tag'']) \<and>
   sh 2 ([''build'', ''test'', ''publish'', ''tag''] ! 2) = Throws ''spawn publish ENOENT'' \<and>
   spawned (trace (pipeline sh [''build'', ''test'', ''publish'', ''tag''])) =
     [''build'', ''test'', ''publish''] \<and>
   terminal_events (trace (pipeline sh [''build'', ''test'', ''publish'', ''tag''])) =
     [Error ''spawn publish ENOENT''] \<and>
   last (trace (pipeline sh [''build'', ''test'', ''publish'', ''tag''])) =
     Emit (Error ''spawn publish ENOENT'')"
  using pipeline_stops_at_spawn_error
    [of 2 "[''build'', ''test'', ''publish'', ''tag'']" sh "''spawn publish ENOENT''"]
  by (simp add: sh_def)

text \<open>
  C6. When the command at position \<open>i\<close> is reached and its child exits with a code other
  than 0, the next command, if there is one, is spawned all the same; and when the
  commands behind it are spawned and exit too, every command has been spawned and the
  only terminal event is \<^verbatim>\<open>exit\<close>. The exit code is not looked at: with any other
  exit codes the pipeline does the same, step by step.
\<close>

theorem nonzero_exit_is_progress:
  assumes "i < length commands" and "all_exit spawn 0 (take i commands)"
    and "spawn i (commands ! i) = Spawned ch" and "exit_code ch = Some code" and "code \<noteq> 0"
  shows "take (Suc (Suc i)) (spawned (trace (pipeline spawn commands))) =
           take (Suc (Suc i)) commands \<and>
         (all_exit spawn (Suc i) (drop (Suc i) commands) \<longrightarrow>
            spawned (trace (pipeline spawn commands)) = commands \<and>
            terminal_events (trace (pipeline spawn commands)) = [Exit]) \<and>
         (\<forall>f. trace (pipeline (recode f spawn) commands) =
                map (recode_step f) (trace (pipeline spawn commands)))"
proof -
  let ?t = "run spawn 0 commands"
  let ?rest = "drop (Suc i) commands"
  have split: "commands = take i commands @ (commands ! i) # ?rest"
    using assms(1) by (simp add: id_take_nth_drop)
  have t: "?t = (butlast (run spawn 0 (take i commands)) @
                 Spawn (commands ! i) # map forward (notifications ch)) @
                ChildExit (commands ! i) code # run spawn (Suc i) ?rest"
    by (rule run_exit_at [OF assms(1-4)])
  have sp: "spawned ?t = take (Suc i) commands @ spawned (run spawn (Suc i) ?rest)"
    using assms(1)
    by (simp add: t spawned_append spawned_forward spawned_completed [OF assms(2)]
        take_Suc_conv_app_nth)
  have "take (Suc (Suc i)) (spawned ?t) = take (Suc (Suc i)) commands"
  proof (cases ?rest)
    case Nil
    then have "length commands = Suc i" using assms(1) by simp
    then show ?thesis by (simp add: sp Nil)
  next
    case (Cons c cs)
    then have c: "c = commands ! Suc i" and len: "Suc i < length commands"
      by (metis nth_via_drop, metis drop_eq_Nil2 list.distinct(1) not_le_imp_less)
    have "take (Suc (Suc i)) (spawned ?t) = take (Suc i) commands @ [c]"
      using assms(1) by (simp add: sp Cons)
    then show ?thesis using len c by (simp add: take_Suc_conv_app_nth)
  qed
  moreover have "spawned ?t = commands \<and> terminal_events ?t = [Exit]"
    if rest: "all_exit spawn (Suc i) ?rest"
  proof -
    have r: "run spawn (Suc i) ?rest = butlast (run spawn (Suc i) ?rest) @ [Emit Exit]"
      by (rule run_all_exit [OF rest])
    have "spawned (run spawn (Suc i) ?rest) = ?rest"
      by (subst r) (simp add: spawned_append spawned_completed [OF rest])
    then have "spawned ?t = commands"
      by (simp add: sp)
    moreover have "terminal_events (run spawn (Suc i) ?rest) = [Exit]"
      by (subst r)
        (simp add: terminal_events_append terminal_events_completed [OF rest]
          terminal_events_simps)
    then have "terminal_events ?t = [Exit]"
      by (simp add: t terminal_events_append terminal_events_forward
          terminal_events_completed [OF assms(2)] terminal_events_simps)
    ultimately show ?thesis by simp
  qed
  ultimately show ?thesis by (simp add: trace_pipeline run_recode)
qed

theorem nonzero_exit_is_progress_witness:
  "sh 0 ([''false'', ''echo hello''] ! 0) = Spawned \<lparr>notifications = [], exit_code = Some 1\<rparr> \<and>
   all_exit sh 1 (drop 1 [''false'', ''echo hello'']) \<and>
   spawned (trace (pipeline sh [''false'', ''echo hello''])) = [''false'', ''echo hello''] \<and>
   terminal_events (trace (pipeline sh [''false'', ''echo hello''])) = [Exit] \<and>
   trace (pipeline (recode (\<lambda>code. 0) sh) [''false'', ''echo hello'']) =
     map (recode_step (\<lambda>code. 0)) (trace (pipeline sh [''false'', ''echo hello'']))"
  using nonzero_exit_is_progress
    [of 0 "[''false'', ''echo hello'']" sh "\<lparr>notifications = [], exit_code = Some 1\<rparr>" 1]
  by (simp add: sh_def)

text \<open>
  C2, as amended. Let the command at position \<open>i\<close> be reached. If its spawn step
  throws \<open>e\<close>, that is terminal for the whole pipeline: the \<^verbatim>\<open>error\<close> event carrying
  \<open>e\<close> is the last thing the pipeline does, and no later command has been spawned. If
  instead its child fires its error stream with \<open>x\<close> and exits, that is not terminal:
  \<open>x\<close> is forwarded as a \<^verbatim>\<open>data\<close> event, no terminal event has been emitted by the
  time the child exits, and the run of the remaining commands follows.
\<close>

theorem spawn_throw_is_terminal_error_stream_is_data:
  assumes "i < length commands" and "all_exit spawn 0 (take i commands)"
  shows "(\<forall>e. spawn i (commands ! i) = Throws e \<longrightarrow>
            last (trace (pipeline spawn commands)) = Emit (Error e) \<and>
            spawned (trace (pipeline spawn commands)) = take (Suc i) commands) \<and>
         (\<forall>ch code x. spawn i (commands ! i) = Spawned ch \<and> exit_code ch = Some code \<and>
            ChildError x \<in> set (notifications ch) \<longrightarrow>
            (\<exists>before. trace (pipeline spawn commands) =
                 before @ ChildExit (commands ! i) code #
                   run spawn (Suc i) (drop (Suc i) commands) \<and>
               Emit (Data x) \<in> set before \<and> terminal_events before = []))"
proof (intro conjI allI impI)
  fix e
  assume th: "spawn i (commands ! i) = Throws e"
  have t: "run spawn 0 commands =
      butlast (run spawn 0 (take i commands)) @ [Spawn (commands ! i), Emit (Error e)]"
    by (rule run_throw_at [OF assms th])
  show "last (trace (pipeline spawn commands)) = Emit (Error e)"
    by (simp add: trace_pipeline t)
  have "spawned (run spawn 0 commands) = take i commands @ [commands ! i]"
    by (simp add: t spawned_append spawned_completed [OF assms(2)])
  then show "spawned (trace (pipeline spawn commands)) = take (Suc i) commands"
    using assms(1) by (simp add: trace_pipeline take_Suc_conv_app_nth)
next
  fix ch code x
  assume h: "spawn i (commands ! i) = Spawned ch \<and> exit_code ch = Some code \<and>
             ChildError x \<in> set (notifications ch)"
  let ?before = "butlast (run spawn 0 (take i commands)) @
                 Spawn (commands ! i) # map forward (notifications ch)"
  have "run spawn 0 commands =
      ?before @ ChildExit (commands ! i) code # run spawn (Suc i) (drop (Suc i) commands)"
    using run_exit_at [OF assms] h by blast
  moreover have "forward (ChildError x) \<in> set (map forward (notifications ch))"
    using h by (metis imageI set_map)
  then have "Emit (Data x) \<in> set ?before" by simp
  moreover have "terminal_events ?before = []"
    by (simp add: terminal_events_append terminal_events_forward
        terminal_events_completed [OF assms(2)] terminal_events_simps)
  ultimately show "\<exists>before. trace (pipeline spawn commands) =
                 before @ ChildExit (commands ! i) code #
                   run spawn (Suc i) (drop (Suc i) commands) \<and>
               Emit (Data x) \<in> set before \<and> terminal_events before = []"
    by (metis trace_pipeline)
qed

theorem spawn_throw_is_terminal_error_stream_is_data_witness:
  "last (trace (pipeline sh [''test'', ''publish'', ''tag''])) =
     Emit (Error ''spawn publish ENOENT'') \<and>
   spawned (trace (pipeline sh [''test'', ''publish'', ''tag''])) = [''test'', ''publish''] \<and>
   (\<exists>before. trace (pipeline sh [''test'', ''publish'', ''tag'']) =
       before @ ChildExit ''test'' 1 # run sh 1 [''publish'', ''tag''] \<and>
     Emit (Data ''assertion failed'') \<in> set before \<and> terminal_events before = [])"
proof -
  let ?commands = "[''test'', ''publish'', ''tag'']"
  have "1 < length ?commands" and "all_exit sh 0 (take 1 ?commands)"
    by (simp_all add: sh_def)
  from spawn_throw_is_terminal_error_stream_is_data [OF this]
  have "last (trace (pipeline sh ?commands)) = Emit (Error ''spawn publish ENOENT'') \<and>
        spawned (trace (pipeline sh ?commands)) = take (Suc 1) ?commands"
    by (simp add: sh_def)
  moreover have "0 < length ?commands" and "all_exit sh 0 (take 0 ?commands)"
    by simp_all
  from spawn_throw_is_terminal_error_stream_is_data [OF this]
  have "\<exists>before. trace (pipeline sh ?commands) =
           before @ ChildExit (?commands ! 0) 1 # run sh (Suc 0) (drop (Suc 0) ?commands) \<and>
         Emit (Data ''assertion failed'') \<in> set before \<and> terminal_events before = []"
    by (simp add: sh_def)
  ultimately show ?thesis by simp
qed

text \<open>
  The claim as it stands fails: the child of \<^verbatim>\<open>test\<close> fires its error stream, and
  the pipeline forwards that as \<^verbatim>\<open>data\<close>, spawns the next command and ends with
  \<^verbatim>\<open>exit\<close>; no \<^verbatim>\<open>error\<close> event is emitted.
\<close>

theorem error_stream_is_not_terminal_counterexample:
  "sh 0 ''test'' =
     Spawned \<lparr>notifications = [ChildData ''1 failing'', ChildError ''assertion failed''],
              exit_code = Some 1\<rparr> \<and>
   trace (pipeline sh [''test'', ''echo hello'']) =
     [Spawn ''test'', Emit (Data ''1 failing''), Emit (Data ''assertion failed''),
      ChildExit ''test'' 1,
      Spawn ''echo hello'', Emit (Data ''hello''), ChildExit ''echo hello'' 0,
      Emit Exit]"
  by (simp add: sh_def pipeline_def trace_def)

section \<open>Properties of \<^verbatim>\<open>release\<close>\<close>

text \<open>
  The listeners of \<^verbatim>\<open>release\<close> resolve the promise on \<^verbatim>\<open>exit\<close> only. When the events
  they see hold \<^verbatim>\<open>error\<close> events and no \<^verbatim>\<open>exit\<close>, the promise is left as it was and
  the errors, being strings, have been written to the error stream.
\<close>

lemma listeners_fold:
  "filter is_terminal es = map Error errs \<Longrightarrow>
   foldl listeners (io, p) es = (io', p') \<Longrightarrow>
   p' = p \<and> stderr io' = stderr io @ errs"
proof (induction es arbitrary: io errs)
  case Nil
  then show ?case by simp
next
  case (Cons ev es)
  show ?case
  proof (cases ev)
    case (Data d)
    with Cons.prems have "filter is_terminal es = map Error errs"
      and "foldl listeners (io\<lparr>stdout := stdout io @ [d]\<rparr>, p) es = (io', p')"
      by simp_all
    from Cons.IH [OF this] show ?thesis by simp
  next
    case Exit
    with Cons.prems(1) show ?thesis by (cases errs) simp_all
  next
    case (Error e)
    with Cons.prems(1) obtain errs' where errs: "errs = e # errs'"
      and rest: "filter is_terminal es = map Error errs'"
      by (cases errs) auto
    from Cons.prems(2) Error
    have "foldl listeners (io\<lparr>stderr := stderr io @ [e]\<rparr>, p) es = (io', p')"
      by simp
    from Cons.IH [OF rest this] show ?thesis by (simp add: errs)
  qed
qed

lemma release_pipeline_error:
  assumes "isReady c" and "entries c ''release'' = Some configured"
    and "truthy_command (Some configured)"
    and "terminal_events (trace (pipeline spawn (as_array configured))) = [Error e]"
  shows "\<exists>io. release spawn c = Inr (Piped io Pending) \<and> stderr io = [e]"
proof -
  let ?commands = "as_array configured"
  let ?pl = "pipeline spawn ?commands"
  obtain first others where cmds: "?commands = first # others"
    using assms(4) by (cases ?commands) (simp_all add: pipeline_def trace_def terminal_events_def)
  obtain t where t: "run spawn 0 ?commands = Spawn first # t"
    by (simp add: cmds)
  have after: "after_return ?pl = t" and during: "during_call ?pl = [Spawn first]"
    using t by (simp_all add: pipeline_def cmds)
  have only_error: "filter is_terminal (emitted (after_return ?pl)) = map Error [e]"
    using assms(4) by (simp add: trace_def terminal_events_def during after)
  obtain io p where fold:
    "foldl listeners (\<lparr>stdout = [], stderr = []\<rparr>, Pending) (emitted (after_return ?pl)) = (io, p)"
    by (cases "foldl listeners (\<lparr>stdout = [], stderr = []\<rparr>, Pending) (emitted (after_return ?pl))")
  from listeners_fold [OF only_error fold] have "p = Pending" and "stderr io = [e]"
    by simp_all
  moreover have "release spawn c = Inr (Piped io p)"
    using assms(1-3) fold by (simp add: release_def get_def Let_def)
  ultimately show ?thesis by simp
qed

text \<open>
  With an empty list of release commands (an empty array is truthy) the \<^verbatim>\<open>exit\<close>
  event is emitted while \<^verbatim>\<open>pipeline\<close> is being called, before \<^verbatim>\<open>release\<close> attaches
  its listeners: the promise stays pending here too.
\<close>

lemma release_no_commands:
  "release spawn \<lparr>isReady = True, entries = [''release'' \<mapsto> Many []]\<rparr> =
     Inr (Piped \<lparr>stdout = [], stderr = []\<rparr> Pending)"
  by (simp add: release_def get_def pipeline_def)

text \<open>
  C1. The release commands \<^verbatim>\<open>build\<close>, \<^verbatim>\<open>publish\<close>, \<^verbatim>\<open>tag\<close>, where \<^verbatim>\<open>publish\<close> cannot be
  spawned: the pipeline ends in its \<^verbatim>\<open>error\<close> event, \<^verbatim>\<open>release\<close> writes the error
  value to the error stream, and the promise it returned is still pending, not
  resolved: only the \<^verbatim>\<open>exit\<close> listener calls \<^verbatim>\<open>resolve\<close>.
\<close>

theorem release_spawn_error_leaves_promise_pending:
  "release sh \<lparr>isReady = True,
               entries = [''release'' \<mapsto> Many [''build'', ''publish'', ''tag'']]\<rparr> =
     Inr (Piped \<lparr>stdout = [], stderr = [''spawn publish ENOENT'']\<rparr> Pending)"
  by (simp add: release_def get_def pipeline_def sh_def)

section \<open>Properties of \<^verbatim>\<open>DevTools.watch\<close>\<close>

text \<open>
  With an options object, no command in it and none configured, \<^verbatim>\<open>watch\<close> throws its
  configuration error, and nothing of its action list has happened: no watcher is
  registered and the debounced handler, which alone spawns processes, is not called.
\<close>

lemma watch_no_command_with_options:
  assumes "isReady config" and "entries config ''watch'' = None"
    and "opt_command opts = None"
  shows "watch cwd config (Some opts) = Inl (JsError ''Watch no command found'')"
  using assms by (simp add: watch_def get_def)

text \<open>
  C8. \<^verbatim>\<open>watch()\<close> called with no options at all, on a prepared configuration with no
  \<^verbatim>\<open>watch\<close> entry: no command is given and none is configured, and the call fails
  with the \<^verbatim>\<open>TypeError\<close> of reading \<^verbatim>\<open>options.ignore\<close>, not with the configuration
  error.
\<close>

theorem watch_no_options_no_command:
  "watch ''/srv/app'' \<lparr>isReady = True, entries = Map.empty\<rparr> None =
     Inl (JsTypeError ''Cannot read properties of undefined (reading 'ignore')'')"
  by (simp add: watch_def get_def)

text \<open>
  C9, as amended. Called with the options argument absent, \<^verbatim>\<open>watch\<close> never fails with
  the configuration error \<^verbatim>\<open>Watch no command found\<close>, whatever the configuration. On
  a prepared configuration (after \<^verbatim>\<open>prepare()\<close>, so that \<^verbatim>\<open>config.get\<close> returns) it
  throws the \<^verbatim>\<open>TypeError\<close> of reading \<^verbatim>\<open>options.ignore\<close>, whether or not a command
  is configured; on an unprepared one \<^verbatim>\<open>config.get\<close> throws \<^verbatim>\<open>config is not ready\<close>
  before \<^verbatim>\<open>options.ignore\<close> is read.
\<close>

theorem watch_without_options_throws_TypeError:
  "(isReady config \<longrightarrow>
      watch cwd config None = Inl (JsTypeError ''Cannot read properties of undefined (reading 'ignore')'')) \<and>
   (\<not> isReady config \<longrightarrow>
      watch cwd config None = Inl (JsError ''config is not ready'')) \<and>
   watch cwd config None \<noteq> Inl (JsError ''Watch no command found'')"
  by (simp add: watch_def get_def)

theorem watch_without_options_throws_TypeError_witness:
  "isReady \<lparr>isReady = True, entries = [''watch'' \<mapsto> Single ''yarn build'']\<rparr> \<and>
   watch ''/srv/app'' \<lparr>isReady = True, entries = [''watch'' \<mapsto> Single ''yarn build'']\<rparr> None =
     Inl (JsTypeError ''Cannot read properties of undefined (reading 'ignore')'') \<and>
   \<not> isReady \<lparr>isReady = False, entries = [''watch'' \<mapsto> Single ''yarn build'']\<rparr> \<and>
   watch ''/srv/app'' \<lparr>isReady = False, entries = [''watch'' \<mapsto> Single ''yarn build'']\<rparr> None =
     Inl (JsError ''config is not ready'')"
  using watch_without_options_throws_TypeError
    [of "\<lparr>isReady = True, entries = [''watch'' \<mapsto> Single ''yarn build'']\<rparr>" "''/srv/app''"]
    watch_without_options_throws_TypeError
    [of "\<lparr>isReady = False, entries = [''watch'' \<mapsto> Single ''yarn build'']\<rparr>" "''/srv/app''"]
  by simp

text \<open>
  The claim as it stands fails: \<^verbatim>\<open>watch()\<close> on a configuration that has not been
  prepared throws \<^verbatim>\<open>config is not ready\<close> from \<^verbatim>\<open>ensure()\<close>, not the \<^verbatim>\<open>TypeError\<close>.
\<close>

theorem watch_without_options_unprepared_counterexample:
  "watch ''/srv/app'' \<lparr>isReady = False, entries = Map.empty\<rparr> None =
     Inl (JsError ''config is not ready'') \<and>
   watch ''/srv/app'' \<lparr>isReady = False, entries = Map.empty\<rparr> None \<noteq>
     Inl (JsTypeError ''Cannot read properties of undefined (reading 'ignore')'')"
  by (simp add: watch_def get_def)

section \<open>Properties of \<^verbatim>\<open>sortPackageJSON\<close>\<close>

lemma update_fresh: "key \<notin> fst ` set al \<Longrightarrow> AList.update key v al = al @ [(key, v)]"
  by (induction al) auto

lemma delete_filter: "AList.delete key al = filter (\<lambda>p. fst p \<noteq> key) al"
  by (induction al) auto

text \<open>What the first loop moves: for each key, in order, its property if it is truthy.\<close>

lemma move_fields_eq:
  assumes "distinct keys" and "distinct (map fst pkg)"
    and "fst ` set pkg \<inter> fst ` set pkg' = {}"
  shows "move_fields keys pkg pkg' =
           (filter (\<lambda>p. \<not> (fst p \<in> set keys \<and> truthy (snd p))) pkg,
            pkg' @ concat (map (\<lambda>key. case map_of pkg key of
                                          None \<Rightarrow> []
                                        | Some v \<Rightarrow> if truthy v then [(key, v)] else []) keys))"
  using assms
proof (induction keys arbitrary: pkg pkg')
  case Nil
  show ?case by simp
next
  case (Cons key keys)
  let ?moved = "\<lambda>pkg key. case map_of pkg key of
                   None \<Rightarrow> [] | Some v \<Rightarrow> if truthy v then [(key, v)] else []"
  from Cons.prems have dk: "distinct keys" and fresh: "key \<notin> set keys" by simp_all
  show ?case
  proof (cases "map_of pkg key")
    case None
    then have "\<And>p. p \<in> set pkg \<Longrightarrow> fst p \<noteq> key"
      by (metis map_of_eq_None_iff image_eqI)
    then have "filter (\<lambda>p. \<not> (fst p \<in> set (key # keys) \<and> truthy (snd p))) pkg =
               filter (\<lambda>p. \<not> (fst p \<in> set keys \<and> truthy (snd p))) pkg"
      by (intro filter_cong) auto
    with None Cons.IH [OF dk Cons.prems(2,3)] show ?thesis by simp
  next
    case (Some v)
    then have mem: "(key, v) \<in> set pkg" by (rule map_of_SomeD)
    have uniq: "\<And>p. p \<in> set pkg \<Longrightarrow> fst p = key \<Longrightarrow> snd p = v"
      using Cons.prems(2) Some by (metis map_of_is_SomeI option.inject prod.collapse)
    show ?thesis
    proof (cases "truthy v")
      case False
      have "filter (\<lambda>p. \<not> (fst p \<in> set (key # keys) \<and> truthy (snd p))) pkg =
            filter (\<lambda>p. \<not> (fst p \<in> set keys \<and> truthy (snd p))) pkg"
        using uniq False by (intro filter_cong) auto
      with Some False Cons.IH [OF dk Cons.prems(2,3)] show ?thesis by simp
    next
      case True
      let ?pkg = "AList.delete key pkg"
      have notin: "key \<notin> fst ` set pkg'"
        using mem Cons.prems(3) by force
      have d: "distinct (map fst ?pkg)"
        using Cons.prems(2) by (rule distinct_delete)
      have disj: "fst ` set ?pkg \<inter> fst ` set (pkg' @ [(key, v)]) = {}"
        using Cons.prems(3) by (auto simp: delete_filter)
      have same: "map (?moved ?pkg) keys = map (?moved pkg) keys"
      proof (rule map_cong [OF refl])
        fix k assume "k \<in> set keys"
        then have "k \<noteq> key" using fresh by auto
        then have "map_of ?pkg k = map_of pkg k"
          by (simp add: delete_conv')
        then show "?moved ?pkg k = ?moved pkg k" by simp
      qed
      have rest: "filter (\<lambda>p. \<not> (fst p \<in> set keys \<and> truthy (snd p))) ?pkg =
                  filter (\<lambda>p. \<not> (fst p \<in> set (key # keys) \<and> truthy (snd p))) pkg"
        unfolding delete_filter filter_filter
        using uniq True by (intro filter_cong) auto
      have "move_fields (key # keys) pkg pkg' = move_fields keys ?pkg (pkg' @ [(key, v)])"
        using Some True by (simp add: update_fresh [OF notin])
      also have "\<dots> =
          (filter (\<lambda>p. \<not> (fst p \<in> set keys \<and> truthy (snd p))) ?pkg,
           (pkg' @ [(key, v)]) @ concat (map (?moved ?pkg) keys))"
        by (rule Cons.IH [OF dk d disj])
      also have "\<dots> =
          (filter (\<lambda>p. \<not> (fst p \<in> set (key # keys) \<and> truthy (snd p))) pkg,
           pkg' @ concat (map (?moved pkg) (key # keys)))"
        unfolding rest same using Some True by simp
      finally show ?thesis .
    qed
  qed
qed

text \<open>The second loop appends what the first has left, in its order.\<close>

lemma copy_fold:
  assumes "distinct (map fst pkg)" and "set xs \<subseteq> set pkg" and "distinct (map fst xs)"
    and "fst ` set xs \<inter> fst ` set pkg' = {}"
  shows "fold (\<lambda>key acc. case map_of pkg key of
                             None \<Rightarrow> acc
                           | Some v \<Rightarrow> AList.update key v acc)
           (map fst xs) pkg' = pkg' @ xs"
  using assms(2-4)
proof (induction xs arbitrary: pkg')
  case Nil
  show ?case by simp
next
  case (Cons x xs)
  obtain key v where x: "x = (key, v)" by (cases x)
  have look: "map_of pkg key = Some v"
    using Cons.prems(1) assms(1) x by simp
  have notin: "key \<notin> fst ` set pkg'"
    using Cons.prems(3) x by auto
  have "fst ` set xs \<inter> fst ` set (pkg' @ [(key, v)]) = {}"
    using Cons.prems(2,3) x by auto
  with Cons.IH [of "pkg' @ [(key, v)]"] Cons.prems(1,2)
  show ?case by (simp add: x look update_fresh [OF notin])
qed

lemma copy_rest_eq:
  assumes "distinct (map fst pkg)" and "fst ` set pkg \<inter> fst ` set pkg' = {}"
  shows "copy_rest pkg pkg' = pkg' @ pkg"
proof (cases pkg)
  case Nil
  then show ?thesis by (simp add: copy_rest_def)
next
  case (Cons x xs)
  then have "copy_rest pkg pkg' =
      fold (\<lambda>key acc. case map_of pkg key of
                          None \<Rightarrow> acc
                        | Some v \<Rightarrow> AList.update key v acc) (map fst pkg) pkg'"
    by (simp add: copy_rest_def)
  also have "\<dots> = pkg' @ pkg"
    by (rule copy_fold [OF assms(1) subset_refl assms])
  finally show ?thesis .
qed

lemma distinct_fields: "distinct fields"
  by (simp add: fields_def)

text \<open>
  The result of \<^verbatim>\<open>sortPackageJSON\<close> on an object with ordinary names: the truthy
  properties named in \<^verbatim>\<open>fields\<close>, in the order of \<^verbatim>\<open>fields\<close>, and behind them every
  other property in its original order, the falsy ones named in \<^verbatim>\<open>fields\<close> among
  them. Objects with a \<^verbatim>\<open>__proto__\<close> property or with names made of digits are left
  out: the code drops the first and enumerates the second ahead of everything.
\<close>

lemma sortPackageJSON_ordinary:
  assumes "ordinary pkg"
  shows "sortPackageJSON pkg =
           concat (map (\<lambda>key. case map_of pkg key of
                                  None \<Rightarrow> []
                                | Some v \<Rightarrow> if truthy v then [(key, v)] else []) fields) @
           filter (\<lambda>p. \<not> (fst p \<in> set fields \<and> truthy (snd p))) pkg"
proof -
  let ?moved = "concat (map (\<lambda>key. case map_of pkg key of
                  None \<Rightarrow> [] | Some v \<Rightarrow> if truthy v then [(key, v)] else []) fields)"
  let ?rest = "filter (\<lambda>p. \<not> (fst p \<in> set fields \<and> truthy (snd p))) pkg"
  have dk: "distinct (map fst pkg)"
    using assms by (simp add: ordinary_def)
  have mv: "move_fields fields pkg [] = (?rest, ?moved)"
    using move_fields_eq [OF distinct_fields dk, of "[]"] by simp
  have d: "distinct (map fst ?rest)"
    using dk by (rule distinct_map_filter)
  have "fst ` set ?rest \<inter> fst ` set ?moved = {}"
  proof -
    have "fst p \<noteq> fst q" if "p \<in> set ?rest" and "q \<in> set ?moved" for p q
    proof
      assume eq: "fst p = fst q"
      from that(2) obtain key where "key \<in> set fields" and
        q: "q \<in> set (case map_of pkg key of
                        None \<Rightarrow> [] | Some v \<Rightarrow> if truthy v then [(key, v)] else [])"
        by auto
      then have "fst q \<in> set fields" and "truthy (snd q)" and "map_of pkg (fst q) = Some (snd q)"
        by (auto split: option.splits if_splits)
      moreover from that(1) have "p \<in> set pkg" by simp
      then have "map_of pkg (fst p) = Some (snd p)"
        using dk by (metis map_of_is_SomeI prod.collapse)
      ultimately have "fst p \<in> set fields \<and> truthy (snd p)"
        using eq by simp
      with that(1) show False by simp
    qed
    then show ?thesis by blast
  qed
  from copy_rest_eq [OF d this] show ?thesis
    by (simp add: sortPackageJSON_def mv)
qed

text \<open>So on such an object no property is dropped and no value is changed.\<close>

lemma set_sortPackageJSON_ordinary:
  assumes "ordinary pkg"
  shows "set (sortPackageJSON pkg) = set pkg"
proof -
  let ?moved = "concat (map (\<lambda>key. case map_of pkg key of
                  None \<Rightarrow> [] | Some v \<Rightarrow> if truthy v then [(key, v)] else []) fields)"
  have dk: "distinct (map fst pkg)"
    using assms by (simp add: ordinary_def)
  have "set ?moved = {p \<in> set pkg. fst p \<in> set fields \<and> truthy (snd p)}"
  proof (intro set_eqI iffI)
    fix p assume "p \<in> set ?moved"
    then obtain key where "key \<in> set fields" and
      "p \<in> set (case map_of pkg key of
                    None \<Rightarrow> [] | Some v \<Rightarrow> if truthy v then [(key, v)] else [])"
      by auto
    then show "p \<in> {p \<in> set pkg. fst p \<in> set fields \<and> truthy (snd p)}"
      by (auto split: option.splits if_splits intro: map_of_SomeD [OF sym])
  next
    fix p assume "p \<in> {p \<in> set pkg. fst p \<in> set fields \<and> truthy (snd p)}"
    then have "p \<in> set pkg" "fst p \<in> set fields" "truthy (snd p)" by simp_all
    moreover from this(1) have "map_of pkg (fst p) = Some (snd p)"
      using dk by (metis map_of_is_SomeI prod.collapse)
    ultimately show "p \<in> set ?moved"
      by (auto intro!: bexI [of _ "fst p"])
  qed
  then show ?thesis
    by (auto simp: sortPackageJSON_ordinary [OF assms])
qed

text \<open>
  C10. A \<^verbatim>\<open>package.json\<close> with \<^verbatim>\<open>"private": false\<close>: every property is kept with its
  value, and \<^verbatim>\<open>private\<close>, which is one of \<^verbatim>\<open>fields\<close>, ends up behind \<^verbatim>\<open>zzz\<close>, which is
  not, because the first loop moves truthy values only.
\<close>

theorem sortPackageJSON_falsy_field_is_not_first:
  "''private'' \<in> set fields \<and> ''zzz'' \<notin> set fields \<and>
   sortPackageJSON
     [(''zzz'', JNumber 1), (''private'', JBool False), (''name'', JString ''gpm'')] =
     [(''name'', JString ''gpm''), (''zzz'', JNumber 1), (''private'', JBool False)]"
  by (simp add: sortPackageJSON_def fields_def copy_rest_def)

end
